theory Spec2Isabelle
  imports Main "HOL-Library.AList"
begin

section \<open>JavaScript values and objects\<close>

text \<open>
  The track records of \<^verbatim>\<open>server/storage.ts\<close> are plain JavaScript objects that are
  built and merged with the spread operator. An object is modelled as a partial map from
  property names to values: a property the object does not have (reading it gives
  \<^verbatim>\<open>undefined\<close>) is \<open>None\<close>, and a property that is present and holds
  \<^verbatim>\<open>undefined\<close> is \<open>Some JUndefined\<close>. A number is a double; those the store
  carries (ids, counts, bit rates, bar counts) are whole, and a whole double is modelled by
  the integer it denotes.
\<close>

datatype jsval =
    JUndefined
  | JNull
  | JBool bool
  | JNum int
  | JStr string
  | JArr "jsval list"
  | JObj "(string \<times> jsval) list"

type_synonym obj = "string \<rightharpoonup> jsval"

text \<open>
  The spread \<^verbatim>\<open>{ ...a, ...b }\<close> copies the properties of \<open>a\<close> and then those of \<open>b\<close>,
  so that \<open>b\<close> wins where both have a property. On maps this is \<open>a ++ b\<close>.
\<close>

section \<open>The track store: \<^verbatim>\<open>MemStorage\<close>\<close>

text \<open>
  \<^verbatim>\<open>Map<number, AudioTrack>\<close> keeps its entries in insertion order, and
  \<^verbatim>\<open>Map.set\<close> on a key that is present replaces the value where it stands. The map is
  an association list with \<^const>\<open>AList.update\<close> for \<^verbatim>\<open>set\<close> and \<^const>\<open>map_of\<close>
  for \<^verbatim>\<open>get\<close>. Every method of the class is \<^verbatim>\<open>async\<close> with no \<^verbatim>\<open>await\<close> in its
  body, so each call runs to its end before any other code; a method is a function from
  the state before the call to the value returned and the state after.
\<close>

record MemStorage =
  users :: "(int \<times> obj) list"
  tracks :: "(int \<times> obj) list"
  userIdCounter :: int
  trackIdCounter :: int

definition MemStorage_constructor :: MemStorage where
  "MemStorage_constructor =
     \<lparr>users = [], tracks = [], userIdCounter = 1, trackIdCounter = 1\<rparr>"

definition getAudioTrack :: "int \<Rightarrow> MemStorage \<Rightarrow> obj option \<times> MemStorage" where
  "getAudioTrack tid s = (map_of (tracks s) tid, s)"

text \<open>
  \<^verbatim>\<open>this.trackIdCounter++\<close> adds 1 in double arithmetic: the result is the double
  nearest to \<open>n + 1\<close>, the one with the even significand on a tie. Every integer up to
  \<open>2^53\<close> in absolute value is a double, so the sum is exact there. From \<open>2^53\<close> to
  \<open>2^54\<close> the doubles are the even integers, \<open>n + 1\<close> lies midway between \<open>n\<close> and
  \<open>n + 2\<close>, and the multiple of 4 is taken. Beyond, the doubles are 4 or more apart and
  \<open>n\<close> is nearest. In particular the counter stays at \<open>2^53\<close> once it is there.
\<close>

definition js_increment :: "int \<Rightarrow> int" where
  "js_increment n =
     (if \<bar>n + 1\<bar> \<le> 2 ^ 53 then n + 1
      else if \<bar>n + 1\<bar> < 2 ^ 54 then (if (n + 2) mod 4 = 0 then n + 2 else n)
      else n)"

definition createAudioTrack :: "obj \<Rightarrow> MemStorage \<Rightarrow> obj \<times> MemStorage" where
  "createAudioTrack track s =
     (let tid = trackIdCounter s;
          s1 = s\<lparr>trackIdCounter := js_increment tid\<rparr>;
          newTrack = track ++
            [''id'' \<mapsto> JNum tid,
             ''extendedPath'' \<mapsto> JNull,
             ''duration'' \<mapsto> JNull,
             ''extendedDuration'' \<mapsto> JNull,
             ''bpm'' \<mapsto> JNull,
             ''key'' \<mapsto> JNull,
             ''format'' \<mapsto> JNull,
             ''bitrate'' \<mapsto> JNull,
             ''status'' \<mapsto> JStr ''uploaded'',
             ''settings'' \<mapsto> JNull]
      in (newTrack, s1\<lparr>tracks := AList.update tid newTrack (tracks s1)\<rparr>))"

definition updateAudioTrack ::
    "int \<Rightarrow> obj \<Rightarrow> MemStorage \<Rightarrow> obj option \<times> MemStorage" where
  "updateAudioTrack tid update s =
     (case map_of (tracks s) tid of
        None \<Rightarrow> (None, s)
      | Some track \<Rightarrow>
          (let updatedTrack = track ++ update
           in (Some updatedTrack,
               s\<lparr>tracks := AList.update tid updatedTrack (tracks s)\<rparr>)))"

text \<open>
  \<^verbatim>\<open>getAudioTracksByUserId\<close>: the values of the map in insertion order, filtered by
  strict equality of \<^verbatim>\<open>userId\<close> with the number given.
\<close>

definition getAudioTracksByUserId :: "int \<Rightarrow> MemStorage \<Rightarrow> obj list \<times> MemStorage" where
  "getAudioTracksByUserId userId s =
     (filter (\<lambda>track. track ''userId'' = Some (JNum userId)) (map snd (tracks s)), s)"

subsection \<open>Sequences of store calls\<close>

text \<open>
  The four track methods of \<^verbatim>\<open>IStorage\<close>, as calls. \<open>run_calls\<close> performs a list of
  calls in order, each on the state the one before left, and returns the tracks that the
  \<^verbatim>\<open>createAudioTrack\<close> calls returned, in order, with the final state.
\<close>

datatype store_call =
    GetAudioTrack int
  | CreateAudioTrack obj
  | UpdateAudioTrack int obj
  | GetAudioTracksByUserId int

fun run_calls :: "store_call list \<Rightarrow> MemStorage \<Rightarrow> obj list \<times> MemStorage" where
  "run_calls [] s = ([], s)"
| "run_calls (GetAudioTrack tid # cs) s = run_calls cs (snd (getAudioTrack tid s))"
| "run_calls (CreateAudioTrack track # cs) s =
     (case createAudioTrack track s of (t, s1) \<Rightarrow>
        (case run_calls cs s1 of (ts, s2) \<Rightarrow> (t # ts, s2)))"
| "run_calls (UpdateAudioTrack tid update # cs) s =
     run_calls cs (snd (updateAudioTrack tid update s))"
| "run_calls (GetAudioTracksByUserId userId # cs) s =
     run_calls cs (snd (getAudioTracksByUserId userId s))"

text \<open>The number of \<^verbatim>\<open>createAudioTrack\<close> calls in a list of calls.\<close>

fun creates :: "store_call list \<Rightarrow> nat" where
  "creates [] = 0"
| "creates (CreateAudioTrack track # cs) = Suc (creates cs)"
| "creates (c # cs) = creates cs"

text \<open>\<open>getAudioTrack\<close> called \<open>n\<close> times in a row, with the results in order.\<close>

fun getAudioTrack_times :: "nat \<Rightarrow> int \<Rightarrow> MemStorage \<Rightarrow> obj option list \<times> MemStorage" where
  "getAudioTrack_times 0 tid s = ([], s)"
| "getAudioTrack_times (Suc n) tid s =
     (case getAudioTrack tid s of (r, s1) \<Rightarrow>
        (case getAudioTrack_times n tid s1 of (rs, s2) \<Rightarrow> (r # rs, s2)))"

text \<open>Every key of the map lies below the counter: the next id is not yet a key.\<close>

definition keys_below_counter :: "MemStorage \<Rightarrow> bool" where
  "keys_below_counter s = list_all (\<lambda>k. k < trackIdCounter s) (map fst (tracks s))"

section \<open>The client: the regenerate button of \<^verbatim>\<open>TrackView\<close>\<close>

text \<open>
  The versioned \<^verbatim>\<open>TrackView\<close> reads the version history of a track as
  \<^verbatim>\<open>track.extendedPaths || []\<close> and its length as
  \<^verbatim>\<open>track.extendedPaths?.length || 0\<close>. \<^verbatim>\<open>extendedPaths\<close> is an array of paths,
  \<^verbatim>\<open>null\<close> or absent; an array reads as itself and anything else as the empty history.
\<close>

definition extendedPaths_of :: "obj \<Rightarrow> jsval list" where
  "extendedPaths_of track =
     (case track ''extendedPaths'' of Some (JArr paths) \<Rightarrow> paths | _ \<Rightarrow> [])"

definition extendedDurations_of :: "obj \<Rightarrow> jsval list" where
  "extendedDurations_of track =
     (case track ''extendedDurations'' of Some (JArr durations) \<Rightarrow> durations | _ \<Rightarrow> [])"

definition extendedPathsLength :: "obj \<Rightarrow> nat" where
  "extendedPathsLength track = length (extendedPaths_of track)"

text \<open>
  The \<^verbatim>\<open>disabled\<close> attribute of the button, in the single-version \<^verbatim>\<open>TrackView\<close>
  and in the versioned one. \<open>isProcessing\<close> is the component's own state.
\<close>

definition regenerate_disabled_single :: "obj \<Rightarrow> bool \<Rightarrow> bool" where
  "regenerate_disabled_single track isProcessing =
     (track ''status'' = Some (JStr ''processing'') \<or> isProcessing)"

definition regenerate_disabled :: "obj \<Rightarrow> bool \<Rightarrow> bool" where
  "regenerate_disabled track isProcessing =
     (track ''status'' = Some (JStr ''processing'') \<or> isProcessing \<or>
      extendedPathsLength track \<ge> 4)"

datatype view_type = Original | Extended

text \<open>
  The versioned view renders the button only for \<^verbatim>\<open>type === "extended"\<close> and
  \<^verbatim>\<open>track.status === "completed"\<close>, and a disabled button takes no click. A click that
  is taken posts \<^verbatim>\<open>track.settings\<close> to \<^verbatim>\<open>/api/tracks/${track.id}/process\<close>:
  \<open>regenerate_click\<close> is the request sent, if any, as the id and the body.
\<close>

definition regenerate_click ::
    "view_type \<Rightarrow> obj \<Rightarrow> bool \<Rightarrow> (jsval option \<times> jsval option) option" where
  "regenerate_click type track isProcessing =
     (if type = Extended \<and> track ''status'' = Some (JStr ''completed'') \<and>
         \<not> regenerate_disabled track isProcessing
      then Some (track ''id'', track ''settings'')
      else None)"

section \<open>The generation coordinator\<close>

text \<open>
  Modelled from the spec: the error taxonomy of the orchestrator (section 7). The server's
  request handlers, which would raise these, are not among the sources.
\<close>

datatype error = NotFound | AlreadyProcessing | CapacityExceeded | EngineFailure | StoreUnavailable

text \<open>
  Modelled from the spec: the cap on the version history (section 3, "cap = 4"). The
  sources have it as the literal 4 of the regenerate button.
\<close>

definition MAX_VERSIONS :: nat where
  "MAX_VERSIONS = 4"

text \<open>
  Modelled from the spec: what the Audio Engine returns on success (section 6): the
  artifact's path and duration, and the metadata it may report. The engine and the code
  that calls it are not among the sources.
\<close>

record engine_result =
  artifactPath :: string
  durationSeconds :: int
  reported_bpm :: "int option"
  reported_key :: "string option"
  reported_format :: "string option"
  reported_bitrate :: "int option"

text \<open>
  Modelled from the spec: the state of the orchestrator is the track store and the
  invocations of the Audio Engine made so far, each with the track id and the settings of
  its \<open>Submit\<close>. The store is the \<^verbatim>\<open>MemStorage\<close> of the sources.
\<close>

record coordinator =
  store :: MemStorage
  engine_calls :: "(int \<times> jsval) list"

definition coordinator_init :: coordinator where
  "coordinator_init = \<lparr>store = MemStorage_constructor, engine_calls = []\<rparr>"

text \<open>
  Modelled from the spec: \<open>ClearAll() -> count\<close> of the Track Store (section 4.1), which
  removes all tracks of the store. \<^verbatim>\<open>IStorage\<close> in the sources has no such method; the
  client's "Clear All Tracks" button sends \<^verbatim>\<open>DELETE /api/tracks\<close>, whose handler is
  not among the sources.
\<close>

definition clearAll :: "MemStorage \<Rightarrow> nat \<times> MemStorage" where
  "clearAll s = (length (tracks s), s\<lparr>tracks := []\<rparr>)"

text \<open>
  Modelled from the spec: \<open>Append(trackId, version) -> index | CapacityExceeded\<close> of the
  Version Ledger (section 4.2), which fails once the history has \<open>MAX_VERSIONS\<close> entries.
  The history is kept where the client reads it, in \<^verbatim>\<open>extendedPaths\<close> and
  \<^verbatim>\<open>extendedDurations\<close> of the track, and written with \<^verbatim>\<open>updateAudioTrack\<close>. The
  code that appends a version is not among the sources.
\<close>

definition ledger_append ::
    "int \<Rightarrow> string \<Rightarrow> int \<Rightarrow> MemStorage \<Rightarrow> (error + nat) \<times> MemStorage" where
  "ledger_append tid path seconds s =
     (case getAudioTrack tid s of
        (None, s1) \<Rightarrow> (Inl NotFound, s1)
      | (Some track, s1) \<Rightarrow>
          if MAX_VERSIONS \<le> extendedPathsLength track then (Inl CapacityExceeded, s1)
          else
            (case updateAudioTrack tid
                    [''extendedPaths'' \<mapsto> JArr (extendedPaths_of track @ [JStr path]),
                     ''extendedDurations'' \<mapsto>
                        JArr (extendedDurations_of track @ [JNum seconds])] s1 of
               (_, s2) \<Rightarrow> (Inr (extendedPathsLength track), s2)))"

text \<open>
  Modelled from the spec: an upload is \<open>Create(ownerId, originalMeta)\<close> (section 4.1). The
  type \<^verbatim>\<open>InsertAudioTrack\<close> of the argument of \<^verbatim>\<open>createAudioTrack\<close> is declared in
  \<^verbatim>\<open>@shared/schema\<close>, which is not among the sources; the object passed holds the
  owner and the original file's name and path.
\<close>

definition upload :: "int \<Rightarrow> string \<Rightarrow> string \<Rightarrow> coordinator \<Rightarrow> obj \<times> coordinator" where
  "upload ownerId originalFilename originalPath c =
     (case createAudioTrack
             [''userId'' \<mapsto> JNum ownerId,
              ''originalFilename'' \<mapsto> JStr originalFilename,
              ''originalPath'' \<mapsto> JStr originalPath] (store c) of
        (t, s1) \<Rightarrow> (t, c\<lparr>store := s1\<rparr>))"

text \<open>
  Modelled from the spec: \<open>Submit(settings)\<close> of the Generation Coordinator (section 4.3).
  From \<open>Uploaded\<close>, \<open>Completed\<close> or \<open>Failed\<close>, with fewer than \<open>MAX_VERSIONS\<close> versions, it
  stores the settings, sets the status to \<open>Processing\<close> and launches the Audio Engine; on
  a track that is \<open>Processing\<close> it is rejected with \<open>AlreadyProcessing\<close>, on a full history
  with \<open>CapacityExceeded\<close>, on an unknown id with \<open>NotFound\<close>. The handler of
  \<^verbatim>\<open>POST /api/tracks/:id/process\<close> is not among the sources.
\<close>

definition submit :: "int \<Rightarrow> jsval \<Rightarrow> coordinator \<Rightarrow> (error + unit) \<times> coordinator" where
  "submit tid settings c =
     (case getAudioTrack tid (store c) of
        (None, s1) \<Rightarrow> (Inl NotFound, c\<lparr>store := s1\<rparr>)
      | (Some track, s1) \<Rightarrow>
          if track ''status'' = Some (JStr ''processing'')
          then (Inl AlreadyProcessing, c\<lparr>store := s1\<rparr>)
          else if MAX_VERSIONS \<le> extendedPathsLength track
          then (Inl CapacityExceeded, c\<lparr>store := s1\<rparr>)
          else
            (case updateAudioTrack tid
                    [''status'' \<mapsto> JStr ''processing'', ''settings'' \<mapsto> settings] s1 of
               (_, s2) \<Rightarrow>
                 (Inr (), \<lparr>store = s2, engine_calls = engine_calls c @ [(tid, settings)]\<rparr>)))"

text \<open>
  Modelled from the spec: the patch of the metadata the engine reported ("update
  \<open>durationSeconds\<close>/\<open>bpm\<close>/etc. if newly reported", section 4.3): a field it did not report
  is absent from the patch.
\<close>

definition reported_metadata :: "engine_result \<Rightarrow> obj" where
  "reported_metadata r =
     (case reported_bpm r of None \<Rightarrow> Map.empty | Some b \<Rightarrow> [''bpm'' \<mapsto> JNum b]) ++
     (case reported_key r of None \<Rightarrow> Map.empty | Some k \<Rightarrow> [''key'' \<mapsto> JStr k]) ++
     (case reported_format r of None \<Rightarrow> Map.empty | Some f \<Rightarrow> [''format'' \<mapsto> JStr f]) ++
     (case reported_bitrate r of None \<Rightarrow> Map.empty | Some b \<Rightarrow> [''bitrate'' \<mapsto> JNum b])"

text \<open>
  Modelled from the spec: the two outcomes of a generation (section 4.3), which concern a
  track that is \<open>Processing\<close> only. On success the version is appended to the ledger first
  and the status set to \<open>Completed\<close> after; on failure the status is set to \<open>Failed\<close> and
  the ledger is left alone. The spec names no transition for an outcome that finds the
  track in another status or gone, nor for a commit that the ledger refuses: the record is
  left as it is then. The completion callback is not among the sources.
\<close>

definition engine_success :: "int \<Rightarrow> engine_result \<Rightarrow> coordinator \<Rightarrow> coordinator" where
  "engine_success tid r c =
     (case getAudioTrack tid (store c) of
        (None, s1) \<Rightarrow> c\<lparr>store := s1\<rparr>
      | (Some track, s1) \<Rightarrow>
          if track ''status'' \<noteq> Some (JStr ''processing'') then c\<lparr>store := s1\<rparr>
          else
            (case ledger_append tid (artifactPath r) (durationSeconds r) s1 of
               (Inl e, s2) \<Rightarrow> c\<lparr>store := s2\<rparr>
             | (Inr index, s2) \<Rightarrow>
                 c\<lparr>store := snd (updateAudioTrack tid
                        (reported_metadata r ++ [''status'' \<mapsto> JStr ''completed'']) s2)\<rparr>))"

definition engine_failure :: "int \<Rightarrow> coordinator \<Rightarrow> coordinator" where
  "engine_failure tid c =
     (case getAudioTrack tid (store c) of
        (None, s1) \<Rightarrow> c\<lparr>store := s1\<rparr>
      | (Some track, s1) \<Rightarrow>
          if track ''status'' \<noteq> Some (JStr ''processing'') then c\<lparr>store := s1\<rparr>
          else c\<lparr>store := snd (updateAudioTrack tid [''status'' \<mapsto> JStr ''failed''] s1)\<rparr>)"

text \<open>
  Modelled from the spec: \<open>Check(trackId) -> {status, currentVersionCount}\<close> of the status
  poll (section 4.4), a read of the track through \<^verbatim>\<open>getAudioTrack\<close>. The handler of
  \<^verbatim>\<open>GET /api/tracks/:id/status\<close> is not among the sources.
\<close>

definition check :: "int \<Rightarrow> coordinator \<Rightarrow> (error + jsval option \<times> nat) \<times> coordinator" where
  "check tid c =
     (case getAudioTrack tid (store c) of
        (None, s1) \<Rightarrow> (Inl NotFound, c\<lparr>store := s1\<rparr>)
      | (Some track, s1) \<Rightarrow>
          (Inr (track ''status'', extendedPathsLength track), c\<lparr>store := s1\<rparr>))"

fun check_times ::
    "nat \<Rightarrow> int \<Rightarrow> coordinator \<Rightarrow> (error + jsval option \<times> nat) list \<times> coordinator" where
  "check_times 0 tid c = ([], c)"
| "check_times (Suc n) tid c =
     (case check tid c of (r, c1) \<Rightarrow>
        (case check_times n tid c1 of (rs, c2) \<Rightarrow> (r # rs, c2)))"

text \<open>
  Modelled from the spec: the events that change the orchestrator's state, and the states
  reached from the initial one by any sequence of them.
\<close>

datatype event =
    Upload int string string
  | Submit int jsval
  | EngineSuccess int engine_result
  | EngineError int
  | Check int
  | ClearAll

fun step :: "event \<Rightarrow> coordinator \<Rightarrow> coordinator" where
  "step (Upload ownerId originalFilename originalPath) c =
     snd (upload ownerId originalFilename originalPath c)"
| "step (Submit tid settings) c = snd (submit tid settings c)"
| "step (EngineSuccess tid r) c = engine_success tid r c"
| "step (EngineError tid) c = engine_failure tid c"
| "step (Check tid) c = snd (check tid c)"
| "step ClearAll c = c\<lparr>store := snd (clearAll (store c))\<rparr>"

fun run :: "event list \<Rightarrow> coordinator \<Rightarrow> coordinator" where
  "run [] c = c"
| "run (e # es) c = run es (step e c)"

text \<open>
  The invariant of the orchestrator: a track holds at most \<open>MAX_VERSIONS\<close> versions, and
  fewer while a generation is in flight, so that its commit has room.
\<close>

definition track_within_cap :: "obj \<Rightarrow> bool" where
  "track_within_cap track =
     (if track ''status'' = Some (JStr ''processing'')
      then extendedPathsLength track < MAX_VERSIONS
      else extendedPathsLength track \<le> MAX_VERSIONS)"

definition within_cap :: "coordinator \<Rightarrow> bool" where
  "within_cap c = list_all track_within_cap (map snd (tracks (store c)))"

section \<open>Example data\<close>

definition example_upload :: obj where
  "example_upload =
     [''originalFilename'' \<mapsto> JStr ''song.mp3'',
      ''originalPath'' \<mapsto> JStr ''uploads/song.mp3'',
      ''userId'' \<mapsto> JNum 7]"

definition one_track_store :: MemStorage where
  "one_track_store = snd (createAudioTrack example_upload MemStorage_constructor)"

text \<open>An argument of \<^verbatim>\<open>createAudioTrack\<close> that brings a version history along.\<close>

definition upload_with_history :: obj where
  "upload_with_history = example_upload(''extendedPaths'' \<mapsto> JArr [JStr ''old.mp3''])"

text \<open>
  \<open>2^53 + 1\<close> calls of \<^verbatim>\<open>createAudioTrack\<close>: as many as bring the counter from 1 to
  \<open>2^53\<close>, and two more.
\<close>

definition creates_to_limit :: "store_call list" where
  "creates_to_limit = replicate (2 ^ 53 - 1) (CreateAudioTrack example_upload)"

definition creates_past_limit :: "store_call list" where
  "creates_past_limit =
     creates_to_limit @ [CreateAudioTrack example_upload, CreateAudioTrack example_upload]"

definition three_calls :: "store_call list" where
  "three_calls =
     [CreateAudioTrack example_upload,
      UpdateAudioTrack 1 [''status'' \<mapsto> JStr ''processing''],
      CreateAudioTrack example_upload]"

definition example_settings :: jsval where
  "example_settings = JObj [(''introLength'', JNum 16)]"

definition example_result :: "string \<Rightarrow> engine_result" where
  "example_result path =
     \<lparr>artifactPath = path, durationSeconds = 120, reported_bpm = Some 128,
      reported_key = None, reported_format = Some ''mp3'', reported_bitrate = None\<rparr>"

definition four_generations :: "event list" where
  "four_generations =
     [Upload 7 ''song.mp3'' ''uploads/song.mp3'',
      Submit 1 example_settings, EngineSuccess 1 (example_result ''v1.mp3''),
      Submit 1 example_settings, EngineSuccess 1 (example_result ''v2.mp3''),
      Submit 1 example_settings, EngineSuccess 1 (example_result ''v3.mp3''),
      Submit 1 example_settings, EngineSuccess 1 (example_result ''v4.mp3'')]"

definition generation_in_flight :: coordinator where
  "generation_in_flight =
     run [Upload 7 ''song.mp3'' ''uploads/song.mp3'', Submit 1 example_settings] coordinator_init"

section \<open>Properties of the track store\<close>

subsection \<open>What each method does to the state\<close>

lemma map_of_Some_key: "map_of al k = Some v \<Longrightarrow> k \<in> set (map fst al)"
  by (induction al) (auto split: if_splits)

lemma createAudioTrack_id:
  "fst (createAudioTrack track s) ''id'' = Some (JNum (trackIdCounter s))"
  by (simp add: createAudioTrack_def Let_def)

lemma createAudioTrack_counter:
  "trackIdCounter (snd (createAudioTrack track s)) = js_increment (trackIdCounter s)"
  by (simp add: createAudioTrack_def Let_def)


lemma updateAudioTrack_Some:
  "map_of (tracks s) tid = Some track \<Longrightarrow>
   updateAudioTrack tid update s =
     (Some (track ++ update), s\<lparr>tracks := AList.update tid (track ++ update) (tracks s)\<rparr>)"
  by (simp add: updateAudioTrack_def Let_def)

lemma updateAudioTrack_counter:
  "trackIdCounter (snd (updateAudioTrack tid update s)) = trackIdCounter s"
  by (simp add: updateAudioTrack_def Let_def split: option.splits)

lemma updateAudioTrack_keys:
  "map fst (tracks (snd (updateAudioTrack tid update s))) = map fst (tracks s)"
proof (cases "map_of (tracks s) tid")
  case None
  then show ?thesis by (simp add: updateAudioTrack_def)
next
  case (Some track)
  then have "tid \<in> set (map fst (tracks s))" by (rule map_of_Some_key)
  with Some show ?thesis by (simp add: updateAudioTrack_def Let_def AList.update_keys)
qed

lemma one_track_store_tracks:
  "map_of (tracks one_track_store) 1 =
     Some (fst (createAudioTrack example_upload MemStorage_constructor))"
  by (simp add: one_track_store_def createAudioTrack_def MemStorage_constructor_def Let_def)

subsection \<open>Ids\<close>

lemma js_increment_below: "0 \<le> n \<Longrightarrow> n < 2 ^ 53 \<Longrightarrow> js_increment n = n + 1"
  by (simp add: js_increment_def)

lemma js_increment_at_limit: "js_increment (2 ^ 53) = 2 ^ 53"
  by (simp add: js_increment_def)

lemma js_increment_ge: "0 \<le> n \<Longrightarrow> n \<le> js_increment n"
  by (simp add: js_increment_def)

lemma run_calls_Create_state:
  "snd (run_calls (CreateAudioTrack track # cs) s) =
     snd (run_calls cs (snd (createAudioTrack track s)))"
  by (simp split: prod.splits)

lemma run_calls_append:
  "run_calls (as @ bs) s =
     (fst (run_calls as s) @ fst (run_calls bs (snd (run_calls as s))),
      snd (run_calls bs (snd (run_calls as s))))"
  by (induction as s rule: run_calls.induct) (simp_all split: prod.splits)

lemma run_calls_no_creates: "creates cs = 0 \<Longrightarrow> fst (run_calls cs s) = []"
  by (induction cs s rule: run_calls.induct) simp_all

lemma run_calls_ids_above:
  "0 \<le> trackIdCounter s \<Longrightarrow> t \<in> set (fst (run_calls cs s)) \<Longrightarrow>
   \<exists>n\<ge>trackIdCounter s. t ''id'' = Some (JNum n)"
proof (induction cs s rule: run_calls.induct)
  case (3 track cs s)
  obtain t1 s1 where c: "createAudioTrack track s = (t1, s1)"
    by (cases "createAudioTrack track s")
  obtain ts s2 where r: "run_calls cs s1 = (ts, s2)" by (cases "run_calls cs s1")
  from c have t1: "t1 ''id'' = Some (JNum (trackIdCounter s))"
    using createAudioTrack_id [of track s] by simp
  from c have "trackIdCounter s1 = js_increment (trackIdCounter s)"
    using createAudioTrack_counter [of track s] by simp
  with "3.prems" have s1: "trackIdCounter s \<le> trackIdCounter s1"
    by (simp add: js_increment_ge)
  from "3.prems" c r have "t = t1 \<or> t \<in> set ts" by simp
  then show ?case
  proof
    assume "t = t1"
    with t1 show ?thesis by auto
  next
    assume "t \<in> set ts"
    with "3.IH" "3.prems" s1 c r
    obtain n where "n \<ge> trackIdCounter s1" "t ''id'' = Some (JNum n)"
      by auto
    with s1 show ?thesis by (intro exI [of _ n]) simp
  qed
qed (simp_all add: getAudioTrack_def getAudioTracksByUserId_def updateAudioTrack_counter)

lemma run_calls_distinct:
  "0 \<le> trackIdCounter s \<Longrightarrow> trackIdCounter s + int (creates cs) \<le> 2 ^ 53 + 1 \<Longrightarrow>
   distinct (map (\<lambda>t. t ''id'') (fst (run_calls cs s)))"
proof (induction cs s rule: run_calls.induct)
  case (3 track cs s)
  obtain t1 s1 where c: "createAudioTrack track s = (t1, s1)"
    by (cases "createAudioTrack track s")
  obtain ts s2 where r: "run_calls cs s1 = (ts, s2)" by (cases "run_calls cs s1")
  from c have t1: "t1 ''id'' = Some (JNum (trackIdCounter s))"
    using createAudioTrack_id [of track s] by simp
  from c have s1: "trackIdCounter s1 = js_increment (trackIdCounter s)"
    using createAudioTrack_counter [of track s] by simp
  from "3.prems" have le: "trackIdCounter s + int (creates cs) \<le> 2 ^ 53" by simp
  show ?case
  proof (cases "trackIdCounter s < 2 ^ 53")
    case True
    with "3.prems" s1 have s1': "trackIdCounter s1 = trackIdCounter s + 1"
      by (simp add: js_increment_below)
    have "t1 ''id'' \<notin> (\<lambda>t. t ''id'') ` set ts"
    proof
      assume "t1 ''id'' \<in> (\<lambda>t. t ''id'') ` set ts"
      then obtain t where t: "t \<in> set ts" "t ''id'' = t1 ''id''" by auto
      from "3.prems" s1' have "0 \<le> trackIdCounter s1" by simp
      with run_calls_ids_above [of s1 t cs] t r
      obtain n where "n \<ge> trackIdCounter s1" "t ''id'' = Some (JNum n)"
        by auto
      with t t1 s1' show False by simp
    qed
    moreover from "3.IH" "3.prems" le s1' c r have "distinct (map (\<lambda>t. t ''id'') ts)"
      by simp
    ultimately show ?thesis using c r by simp
  next
    case False
    with le have "creates cs = 0" by simp
    then have "fst (run_calls cs s1) = []" by (rule run_calls_no_creates)
    with c r show ?thesis by simp
  qed
qed (simp_all add: getAudioTrack_def getAudioTracksByUserId_def updateAudioTrack_counter)

lemma keys_below_createAudioTrack:
  "keys_below_counter s \<Longrightarrow> 0 \<le> trackIdCounter s \<Longrightarrow> trackIdCounter s < 2 ^ 53 \<Longrightarrow>
   keys_below_counter (snd (createAudioTrack track s))"
  by (auto simp: keys_below_counter_def createAudioTrack_def Let_def AList.update_keys
      list_all_iff js_increment_below)

lemma keys_below_updateAudioTrack:
  "keys_below_counter s \<Longrightarrow> keys_below_counter (snd (updateAudioTrack tid update s))"
  by (simp add: keys_below_counter_def updateAudioTrack_keys updateAudioTrack_counter)

lemma keys_below_run_calls:
  "keys_below_counter s \<Longrightarrow> 0 \<le> trackIdCounter s \<Longrightarrow>
   trackIdCounter s + int (creates cs) \<le> 2 ^ 53 \<Longrightarrow>
   keys_below_counter (snd (run_calls cs s))"
proof (induction cs s rule: run_calls.induct)
  case (3 track cs s)
  from "3.prems" have lt: "trackIdCounter s < 2 ^ 53" by simp
  with "3.prems" have k: "keys_below_counter (snd (createAudioTrack track s))"
    by (simp add: keys_below_createAudioTrack)
  from "3.prems" lt have c: "trackIdCounter (snd (createAudioTrack track s)) = trackIdCounter s + 1"
    by (simp add: createAudioTrack_counter js_increment_below)
  with "3.IH" [of "fst (createAudioTrack track s)" "snd (createAudioTrack track s)"] k "3.prems"
  show ?case by (simp only: run_calls_Create_state) simp
next
  case (4 tid update cs s)
  then show ?case
    using keys_below_updateAudioTrack [of s tid update]
    by (simp add: updateAudioTrack_counter)
qed (simp_all add: getAudioTrack_def getAudioTracksByUserId_def)

lemma keys_below_fresh:
  "keys_below_counter s \<Longrightarrow> map_of (tracks s) (trackIdCounter s) = None"
  by (auto simp: keys_below_counter_def list_all_iff map_of_eq_None_iff)

text \<open>Calls of \<^verbatim>\<open>createAudioTrack\<close> alone count the counter up, as far as \<open>2^53\<close>.\<close>

lemma replicate_creates_counter:
  "0 \<le> trackIdCounter s \<Longrightarrow> trackIdCounter s + int n \<le> 2 ^ 53 \<Longrightarrow>
   trackIdCounter (snd (run_calls (replicate n (CreateAudioTrack track)) s)) =
     trackIdCounter s + int n"
proof (induction n arbitrary: s)
  case 0
  show ?case by simp
next
  case (Suc n)
  from Suc.prems have c: "trackIdCounter (snd (createAudioTrack track s)) = trackIdCounter s + 1"
    by (simp add: createAudioTrack_counter js_increment_below)
  with Suc.IH [of "snd (createAudioTrack track s)"] Suc.prems
  have "trackIdCounter (snd (run_calls (replicate n (CreateAudioTrack track))
          (snd (createAudioTrack track s)))) = trackIdCounter s + 1 + int n"
    by simp
  then show ?case by (simp add: run_calls_Create_state del: run_calls.simps)
qed

lemma creates_to_limit_counter:
  "trackIdCounter (snd (run_calls creates_to_limit MemStorage_constructor)) = 2 ^ 53"
  using replicate_creates_counter [of MemStorage_constructor "2 ^ 53 - 1" example_upload]
  by (simp add: creates_to_limit_def MemStorage_constructor_def)

lemma two_creates_at_limit:
  "trackIdCounter s = 2 ^ 53 \<Longrightarrow>
   map (\<lambda>t. t ''id'') (fst (run_calls [CreateAudioTrack a, CreateAudioTrack b] s)) =
     [Some (JNum (2 ^ 53)), Some (JNum (2 ^ 53))]"
  by (simp add: createAudioTrack_def Let_def js_increment_def)

text \<open>
  C6, as claimed, fails on the code: the counter is a double and stays at \<open>2^53\<close>. After
  the \<open>2^53 - 1\<close> calls that bring it there from the constructor's 1, the next two calls
  of \<^verbatim>\<open>createAudioTrack\<close> both assign the id \<open>2^53\<close>.
\<close>

theorem createAudioTrack_id_reused_past_limit:
  "\<not> distinct (map (\<lambda>t. t ''id'') (fst (run_calls creates_past_limit MemStorage_constructor)))"
proof -
  have "map (\<lambda>t. t ''id'')
      (fst (run_calls [CreateAudioTrack example_upload, CreateAudioTrack example_upload]
        (snd (run_calls creates_to_limit MemStorage_constructor)))) =
      [Some (JNum (2 ^ 53)), Some (JNum (2 ^ 53))]"
    using creates_to_limit_counter by (rule two_creates_at_limit)
  then show ?thesis
    by (simp add: creates_past_limit_def run_calls_append [of creates_to_limit])
qed

text \<open>
  C6, amended. In a sequence of calls of the store's track methods that starts with the
  counter at \<open>c \<ge> 0\<close> and has at most \<open>2^53 + 1 - c\<close> calls of \<^verbatim>\<open>createAudioTrack\<close>
  (from the constructor: at most \<open>2^53\<close>), the ids these calls assign are pairwise
  distinct. And in a store that started from the constructor and has seen fewer than
  \<open>2^53\<close> such calls, the id the next call will assign is not held by any track.
\<close>

theorem createAudioTrack_ids_never_reused:
  assumes "0 \<le> trackIdCounter s"
    and "trackIdCounter s + int (creates cs) \<le> 2 ^ 53 + 1"
  shows "distinct (map (\<lambda>t. t ''id'') (fst (run_calls cs s))) \<and>
         (int (creates cs') < 2 ^ 53 \<longrightarrow>
            fst (getAudioTrack (trackIdCounter (snd (run_calls cs' MemStorage_constructor)))
                  (snd (run_calls cs' MemStorage_constructor))) = None)"
proof -
  have "keys_below_counter (snd (run_calls cs' MemStorage_constructor))"
    if "int (creates cs') < 2 ^ 53"
  proof -
    have "keys_below_counter MemStorage_constructor"
      by (simp add: keys_below_counter_def MemStorage_constructor_def)
    moreover have "0 \<le> trackIdCounter MemStorage_constructor"
      by (simp add: MemStorage_constructor_def)
    moreover from that have "trackIdCounter MemStorage_constructor + int (creates cs') \<le> 2 ^ 53"
      by (simp add: MemStorage_constructor_def)
    ultimately show ?thesis by (rule keys_below_run_calls)
  qed
  with assms show ?thesis
    by (simp add: run_calls_distinct getAudioTrack_def keys_below_fresh)
qed

theorem createAudioTrack_ids_never_reused_witness:
  "map (\<lambda>t. t ''id'') (fst (run_calls three_calls MemStorage_constructor)) =
     [Some (JNum 1), Some (JNum 2)] \<and>
   distinct (map (\<lambda>t. t ''id'') (fst (run_calls three_calls MemStorage_constructor))) \<and>
   fst (getAudioTrack 3 (snd (run_calls three_calls MemStorage_constructor))) = None"
proof -
  have c: "trackIdCounter (snd (run_calls three_calls MemStorage_constructor)) = 3"
    by (simp add: three_calls_def MemStorage_constructor_def createAudioTrack_def
        updateAudioTrack_def Let_def js_increment_def)
  have i: "map (\<lambda>t. t ''id'') (fst (run_calls three_calls MemStorage_constructor)) =
      [Some (JNum 1), Some (JNum 2)]"
    by (simp add: three_calls_def MemStorage_constructor_def createAudioTrack_def
        updateAudioTrack_def Let_def js_increment_def)
  have n: "creates three_calls = 2" by (simp add: three_calls_def)
  have h1: "0 \<le> trackIdCounter MemStorage_constructor"
    by (simp add: MemStorage_constructor_def)
  have h2: "trackIdCounter MemStorage_constructor + int (creates three_calls) \<le> 2 ^ 53 + 1"
    by (simp add: n MemStorage_constructor_def)
  from createAudioTrack_ids_never_reused [OF h1 h2, of three_calls] n c i
  show ?thesis by simp
qed

subsection \<open>Creation\<close>

text \<open>
  C5, as claimed, fails on the code: \<^verbatim>\<open>createAudioTrack\<close> does not write
  \<^verbatim>\<open>extendedPaths\<close>, so a version history that the argument brings along is the
  history of the track returned.
\<close>

theorem createAudioTrack_keeps_supplied_history:
  "extendedPaths_of (fst (createAudioTrack upload_with_history MemStorage_constructor)) =
     [JStr ''old.mp3'']"
  by (simp add: createAudioTrack_def upload_with_history_def extendedPaths_of_def Let_def)

text \<open>
  C5, amended. Whatever object \<^verbatim>\<open>createAudioTrack\<close> is given, the track it returns has
  status \<^verbatim>\<open>"uploaded"\<close>, no single extended mix (\<^verbatim>\<open>extendedPath\<close> and
  \<^verbatim>\<open>extendedDuration\<close> are \<^verbatim>\<open>null\<close>), and \<^verbatim>\<open>bpm\<close>, \<^verbatim>\<open>key\<close>, \<^verbatim>\<open>format\<close> and
  \<^verbatim>\<open>bitrate\<close> set to \<^verbatim>\<open>null\<close>: these properties are written after the spread of
  the argument and override it. Its \<^verbatim>\<open>extendedPaths\<close>, the version history the
  versioned client reads, is the argument's: empty exactly when the argument's is, as for
  an upload, whose argument holds the owner and the original file's name and path. The
  track returned is the one stored under the new id.
\<close>

theorem createAudioTrack_initial_fields:
  "(case createAudioTrack track s of (t, s') \<Rightarrow>
      t ''status'' = Some (JStr ''uploaded'') \<and>
      t ''extendedPath'' = Some JNull \<and>
      t ''extendedDuration'' = Some JNull \<and>
      t ''bpm'' = Some JNull \<and>
      t ''key'' = Some JNull \<and>
      t ''format'' = Some JNull \<and>
      t ''bitrate'' = Some JNull \<and>
      t ''extendedPaths'' = track ''extendedPaths'' \<and>
      extendedPaths_of t = extendedPaths_of track \<and>
      fst (getAudioTrack (trackIdCounter s) s') = Some t) \<and>
   extendedPaths_of (fst (upload ownerId originalFilename originalPath c)) = []"
  by (simp add: createAudioTrack_def getAudioTrack_def upload_def extendedPaths_of_def Let_def
      AList.update_conv')

subsection \<open>Update and read\<close>

text \<open>
  C7. When the id is in the store, \<^verbatim>\<open>updateAudioTrack\<close> returns the merged track and
  stores it under the id; every property that the patch does not have keeps, in the track
  returned and stored, the value it had in the stored track, every track under another id
  is as before, the order of the entries is as before, and the
  users and the two counters are untouched. (A patch that has a property holding
  \<^verbatim>\<open>undefined\<close> does have that property, and the spread copies it.)
\<close>

theorem updateAudioTrack_frame:
  assumes "map_of (tracks s) tid = Some track"
  shows "\<exists>updated s'. updateAudioTrack tid update s = (Some updated, s') \<and>
           map_of (tracks s') tid = Some updated \<and>
           (\<forall>k. update k = None \<longrightarrow> updated k = track k) \<and>
           (\<forall>other. other \<noteq> tid \<longrightarrow> map_of (tracks s') other = map_of (tracks s) other) \<and>
           map fst (tracks s') = map fst (tracks s) \<and>
           users s' = users s \<and> userIdCounter s' = userIdCounter s \<and>
           trackIdCounter s' = trackIdCounter s"
proof -
  from assms have "tid \<in> set (map fst (tracks s))" by (rule map_of_Some_key)
  with assms show ?thesis
    by (simp add: updateAudioTrack_def Let_def AList.update_conv' AList.update_keys map_add_def)
qed

theorem updateAudioTrack_frame_witness:
  "\<exists>updated s'.
      updateAudioTrack 1 [''status'' \<mapsto> JStr ''processing''] one_track_store =
        (Some updated, s') \<and>
      map_of (tracks s') 1 = Some updated \<and>
      updated ''originalFilename'' = Some (JStr ''song.mp3'') \<and>
      updated ''bpm'' = Some JNull \<and>
      map fst (tracks s') = [1] \<and> trackIdCounter s' = 2"
  using updateAudioTrack_frame
    [OF one_track_store_tracks, of "[''status'' \<mapsto> JStr ''processing'']"]
  by (auto simp: one_track_store_def createAudioTrack_def MemStorage_constructor_def Let_def
      example_upload_def js_increment_def)

text \<open>
  C8. For an id that is not a key of the store, \<^verbatim>\<open>getAudioTrack\<close> and
  \<^verbatim>\<open>updateAudioTrack\<close> both return \<^verbatim>\<open>undefined\<close>, and both leave the whole state as it
  was: the failed update creates and changes nothing.
\<close>

theorem unknown_id_NotFound:
  assumes "tid \<notin> fst ` set (tracks s)"
  shows "getAudioTrack tid s = (None, s) \<and> updateAudioTrack tid update s = (None, s)"
proof -
  from assms have "map_of (tracks s) tid = None" by (simp add: map_of_eq_None_iff)
  then show ?thesis by (simp add: getAudioTrack_def updateAudioTrack_def)
qed

theorem unknown_id_NotFound_witness:
  "(5::int) \<notin> fst ` set (tracks one_track_store) \<and>
   getAudioTrack 5 one_track_store = (None, one_track_store) \<and>
   updateAudioTrack 5 [''status'' \<mapsto> JStr ''failed''] one_track_store =
     (None, one_track_store)"
proof -
  have h: "(5::int) \<notin> fst ` set (tracks one_track_store)"
    by (simp add: one_track_store_def createAudioTrack_def MemStorage_constructor_def Let_def)
  from unknown_id_NotFound [OF h, of "[''status'' \<mapsto> JStr ''failed'']"] h
  show ?thesis by simp
qed

text \<open>
  C10. When \<^verbatim>\<open>updateAudioTrack\<close> returns a track, \<^verbatim>\<open>getAudioTrack\<close> with the same id on
  the state it left returns that very track, and leaves the state as it is.
\<close>

theorem updateAudioTrack_then_getAudioTrack:
  assumes "updateAudioTrack tid update s = (Some t, s')"
  shows "getAudioTrack tid s' = (Some t, s')"
  using assms
  by (auto simp: updateAudioTrack_def getAudioTrack_def Let_def AList.update_conv'
      split: option.splits)

theorem updateAudioTrack_then_getAudioTrack_witness:
  "\<exists>t s'. updateAudioTrack 1 [''bpm'' \<mapsto> JNum 128] one_track_store = (Some t, s') \<and>
      getAudioTrack 1 s' = (Some t, s') \<and> t ''bpm'' = Some (JNum 128)"
proof -
  obtain t s' where
    u: "updateAudioTrack 1 [''bpm'' \<mapsto> JNum 128] one_track_store = (Some t, s')"
    using one_track_store_tracks by (simp add: updateAudioTrack_def Let_def)
  from updateAudioTrack_then_getAudioTrack [OF u] have "getAudioTrack 1 s' = (Some t, s')" .
  moreover from u one_track_store_tracks have "t ''bpm'' = Some (JNum 128)"
    by (auto simp: updateAudioTrack_def Let_def)
  ultimately show ?thesis using u by blast
qed

text \<open>
  The store itself puts no bound on \<^verbatim>\<open>extendedPaths\<close>: a patch with five paths is
  merged like any other. The bound is the orchestrator's, below.
\<close>

lemma updateAudioTrack_has_no_cap:
  "\<exists>track. fst (updateAudioTrack 1
       [''extendedPaths'' \<mapsto> JArr [JStr ''a'', JStr ''b'', JStr ''c'', JStr ''d'', JStr ''e'']]
       one_track_store) = Some track \<and> extendedPathsLength track = 5"
  by (simp add: one_track_store_def createAudioTrack_def MemStorage_constructor_def Let_def
      updateAudioTrack_def extendedPathsLength_def extendedPaths_of_def)

subsection \<open>Removal\<close>




section \<open>Properties of the orchestrator\<close>

subsection \<open>The status poll\<close>

lemma check_state: "snd (check tid c) = c"
  by (simp add: check_def getAudioTrack_def split: option.splits)

lemma getAudioTrack_times_eq:
  "getAudioTrack_times n tid s = (replicate n (map_of (tracks s) tid), s)"
  by (induction n) (simp_all add: getAudioTrack_def)

lemma check_times_eq: "check_times n tid c = (replicate n (fst (check tid c)), c)"
proof (induction n)
  case 0
  show ?case by simp
next
  case (Suc n)
  obtain r where "check tid c = (r, c)"
    using check_state [of tid c] by (cases "check tid c") simp
  with Suc show ?case by simp
qed

text \<open>
  C9. \<open>Check\<close> called \<open>n\<close> times in a row on a track id gives \<open>n\<close> times the answer of the
  first call and leaves the state (the store and the engine's invocations) exactly as it
  was; the same holds of the store's read \<^verbatim>\<open>getAudioTrack\<close>, on which it rests.
\<close>

theorem check_idempotent:
  "check_times n tid c = (replicate n (fst (check tid c)), c) \<and>
   getAudioTrack_times n tid s = (replicate n (fst (getAudioTrack tid s)), s)"
  by (simp add: check_times_eq getAudioTrack_times_eq getAudioTrack_def)

subsection \<open>The version cap is an invariant\<close>

lemma list_all_update:
  "list_all P (map snd al) \<Longrightarrow> P v \<Longrightarrow> list_all P (map snd (AList.update k v al))"
  by (induction al) auto

lemma map_of_list_all:
  "list_all P (map snd al) \<Longrightarrow> map_of al k = Some v \<Longrightarrow> P v"
  by (induction al) (auto split: if_splits)

lemma within_cap_lookup:
  "within_cap c \<Longrightarrow> map_of (tracks (store c)) tid = Some track \<Longrightarrow> track_within_cap track"
  using map_of_list_all [of track_within_cap "tracks (store c)" tid track]
  by (simp add: within_cap_def)

lemma within_cap_updateAudioTrack:
  assumes "list_all track_within_cap (map snd (tracks s))"
    and "\<And>track. map_of (tracks s) tid = Some track \<Longrightarrow> track_within_cap (track ++ update)"
  shows "list_all track_within_cap (map snd (tracks (snd (updateAudioTrack tid update s))))"
  using assms by (auto simp: updateAudioTrack_def Let_def list_all_update split: option.splits)

lemma within_cap_init: "within_cap coordinator_init"
  by (simp add: within_cap_def coordinator_init_def MemStorage_constructor_def)

lemma within_cap_upload: "within_cap c \<Longrightarrow> within_cap (snd (upload ownerId fname path c))"
  by (simp add: within_cap_def upload_def createAudioTrack_def Let_def list_all_update
      track_within_cap_def extendedPathsLength_def extendedPaths_of_def MAX_VERSIONS_def)

lemma within_cap_submit:
  assumes w: "within_cap c"
  shows "within_cap (snd (submit tid settings c))"
proof (cases "map_of (tracks (store c)) tid")
  case None
  with w show ?thesis by (simp add: submit_def getAudioTrack_def)
next
  case (Some track)
  show ?thesis
  proof (cases "track ''status'' = Some (JStr ''processing'') \<or>
      MAX_VERSIONS \<le> extendedPathsLength track")
    case True
    with w Some show ?thesis by (auto simp: submit_def getAudioTrack_def)
  next
    case False
    then have "track_within_cap
        (track ++ [''status'' \<mapsto> JStr ''processing'', ''settings'' \<mapsto> settings])"
      by (simp add: track_within_cap_def extendedPathsLength_def extendedPaths_of_def)
    with w Some False show ?thesis
      using within_cap_updateAudioTrack [of "store c" tid
          "[''status'' \<mapsto> JStr ''processing'', ''settings'' \<mapsto> settings]"]
      by (auto simp: submit_def getAudioTrack_def within_cap_def split: prod.splits)
  qed
qed

lemma reported_metadata_other:
  "k \<notin> {''bpm'', ''key'', ''format'', ''bitrate''} \<Longrightarrow> reported_metadata r k = None"
  by (auto simp: reported_metadata_def map_add_def split: option.splits)

text \<open>
  A success that finds the track \<open>Processing\<close> with room in its history commits: the new
  path and duration are appended and the status becomes \<open>Completed\<close>.
\<close>

lemma engine_success_commit:
  assumes "map_of (tracks (store c)) tid = Some track"
    and "track ''status'' = Some (JStr ''processing'')"
    and "extendedPathsLength track < MAX_VERSIONS"
  shows "engine_success tid r c =
     c\<lparr>store := (store c)\<lparr>tracks := AList.update tid
        (track ++
           [''extendedPaths'' \<mapsto> JArr (extendedPaths_of track @ [JStr (artifactPath r)]),
            ''extendedDurations'' \<mapsto>
               JArr (extendedDurations_of track @ [JNum (durationSeconds r)])] ++
           (reported_metadata r ++ [''status'' \<mapsto> JStr ''completed'']))
        (tracks (store c))\<rparr>\<rparr>"
  using assms
  by (simp add: engine_success_def ledger_append_def getAudioTrack_def updateAudioTrack_Some
      AList.update_conv')

lemma engine_success_commit_tracks:
  assumes "map_of (tracks (store c)) tid = Some track"
    and "track ''status'' = Some (JStr ''processing'')"
    and "extendedPathsLength track < MAX_VERSIONS"
  shows "tracks (store (engine_success tid r c)) =
     AList.update tid
        (track ++
           [''extendedPaths'' \<mapsto> JArr (extendedPaths_of track @ [JStr (artifactPath r)]),
            ''extendedDurations'' \<mapsto>
               JArr (extendedDurations_of track @ [JNum (durationSeconds r)])] ++
           (reported_metadata r ++ [''status'' \<mapsto> JStr ''completed'']))
        (tracks (store c))"
  by (simp add: engine_success_commit [OF assms])

lemma committed_track_within_cap:
  assumes "extendedPathsLength track < MAX_VERSIONS"
  shows "track_within_cap
     (track ++
        [''extendedPaths'' \<mapsto> JArr (extendedPaths_of track @ [p]),
         ''extendedDurations'' \<mapsto> JArr (extendedDurations_of track @ [d])] ++
        (reported_metadata r ++ [''status'' \<mapsto> JStr ''completed'']))"
proof -
  have "reported_metadata r ''extendedPaths'' = None"
    by (rule reported_metadata_other) simp
  with assms show ?thesis
    by (simp add: track_within_cap_def extendedPathsLength_def extendedPaths_of_def map_add_def)
qed

lemma within_cap_engine_success:
  assumes w: "within_cap c"
  shows "within_cap (engine_success tid r c)"
proof (cases "map_of (tracks (store c)) tid")
  case None
  with w show ?thesis by (simp add: engine_success_def getAudioTrack_def)
next
  case (Some track)
  show ?thesis
  proof (cases "track ''status'' = Some (JStr ''processing'')")
    case False
    with w Some show ?thesis by (simp add: engine_success_def getAudioTrack_def)
  next
    case True
    from w Some have "track_within_cap track" by (rule within_cap_lookup)
    with True have lt: "extendedPathsLength track < MAX_VERSIONS"
      by (simp add: track_within_cap_def)
    from w have "list_all track_within_cap (map snd (tracks (store c)))"
      by (simp add: within_cap_def)
    then have "list_all track_within_cap (map snd (AList.update tid
        (track ++
           [''extendedPaths'' \<mapsto> JArr (extendedPaths_of track @ [JStr (artifactPath r)]),
            ''extendedDurations'' \<mapsto>
               JArr (extendedDurations_of track @ [JNum (durationSeconds r)])] ++
           (reported_metadata r ++ [''status'' \<mapsto> JStr ''completed'']))
        (tracks (store c))))"
      using committed_track_within_cap [OF lt]
      by (rule list_all_update [where P = track_within_cap])
    then show ?thesis
      by (simp only: engine_success_commit_tracks [OF Some True lt] within_cap_def)
  qed
qed

lemma within_cap_engine_failure:
  assumes w: "within_cap c"
  shows "within_cap (engine_failure tid c)"
proof (cases "map_of (tracks (store c)) tid")
  case None
  with w show ?thesis by (simp add: engine_failure_def getAudioTrack_def)
next
  case (Some track)
  show ?thesis
  proof (cases "track ''status'' = Some (JStr ''processing'')")
    case False
    with w Some show ?thesis by (simp add: engine_failure_def getAudioTrack_def)
  next
    case True
    from w Some have "track_within_cap track" by (rule within_cap_lookup)
    with True have "track_within_cap (track ++ [''status'' \<mapsto> JStr ''failed''])"
      by (simp add: track_within_cap_def extendedPathsLength_def extendedPaths_of_def)
    with w Some True show ?thesis
      by (simp add: engine_failure_def getAudioTrack_def updateAudioTrack_Some within_cap_def
          list_all_update)
  qed
qed

lemma within_cap_step:
  assumes w: "within_cap c"
  shows "within_cap (step e c)"
proof (cases e)
  case (Upload ownerId fname path)
  with w show ?thesis by (simp add: within_cap_upload)
next
  case (Submit tid settings)
  with w show ?thesis by (simp add: within_cap_submit)
next
  case (EngineSuccess tid r)
  with w show ?thesis by (simp add: within_cap_engine_success)
next
  case (EngineError tid)
  with w show ?thesis by (simp add: within_cap_engine_failure)
next
  case (Check tid)
  with w show ?thesis by (simp add: check_state)
next
  case ClearAll
  then show ?thesis by (simp add: within_cap_def clearAll_def)
qed

lemma within_cap_run: "within_cap c \<Longrightarrow> within_cap (run es c)"
  by (induction es arbitrary: c) (simp_all add: within_cap_step)

lemma four_generations_paths:
  "\<exists>track. map_of (tracks (store (run four_generations coordinator_init))) 1 = Some track \<and>
     track ''extendedPaths'' =
       Some (JArr [JStr ''v1.mp3'', JStr ''v2.mp3'', JStr ''v3.mp3'', JStr ''v4.mp3'']) \<and>
     track ''status'' = Some (JStr ''completed'')"
  by (simp add: four_generations_def coordinator_init_def MemStorage_constructor_def
      upload_def submit_def engine_success_def ledger_append_def createAudioTrack_def
      getAudioTrack_def updateAudioTrack_def Let_def example_result_def reported_metadata_def
      extendedPathsLength_def extendedPaths_of_def extendedDurations_of_def MAX_VERSIONS_def)

text \<open>
  C1. In every state the orchestrator reaches from the initial one, by any sequence of
  uploads, submits, engine outcomes, polls and clears, every track of the store holds at
  most 4 versions. On a track that holds 4, a further \<open>Submit\<close> returns
  \<open>CapacityExceeded\<close> and leaves the state as it was: the engine's invocations are the
  same, so the engine is not called, and the track still holds its 4 versions. The
  client's regenerate button is disabled on such a track and sends no request.
\<close>

theorem version_cap:
  assumes "map_of (tracks (store (run es coordinator_init))) tid = Some track"
  shows "extendedPathsLength track \<le> 4 \<and>
         (extendedPathsLength track = 4 \<longrightarrow>
            submit tid settings (run es coordinator_init) =
              (Inl CapacityExceeded, run es coordinator_init) \<and>
            regenerate_disabled track isProcessing \<and>
            regenerate_click type track isProcessing = None)"
proof -
  let ?c = "run es coordinator_init"
  have "within_cap ?c" using within_cap_init by (rule within_cap_run)
  from this assms have t: "track_within_cap track" by (rule within_cap_lookup)
  then have le: "extendedPathsLength track \<le> 4"
    by (simp add: track_within_cap_def MAX_VERSIONS_def split: if_splits)
  have "submit tid settings ?c = (Inl CapacityExceeded, ?c)"
    if "extendedPathsLength track = 4"
  proof -
    from t that have "track ''status'' \<noteq> Some (JStr ''processing'')"
      by (auto simp: track_within_cap_def MAX_VERSIONS_def split: if_splits)
    with assms that show ?thesis
      by (simp add: submit_def getAudioTrack_def MAX_VERSIONS_def)
  qed
  with le show ?thesis
    by (simp add: regenerate_disabled_def regenerate_click_def)
qed

theorem version_cap_witness:
  "\<exists>track. map_of (tracks (store (run four_generations coordinator_init))) 1 = Some track \<and>
     extendedPathsLength track = 4 \<and>
     submit 1 example_settings (run four_generations coordinator_init) =
       (Inl CapacityExceeded, run four_generations coordinator_init) \<and>
     regenerate_disabled track False"
proof -
  from four_generations_paths obtain track where
    t: "map_of (tracks (store (run four_generations coordinator_init))) 1 = Some track" and
    p: "track ''extendedPaths'' =
          Some (JArr [JStr ''v1.mp3'', JStr ''v2.mp3'', JStr ''v3.mp3'', JStr ''v4.mp3''])"
    by blast
  from p have l: "extendedPathsLength track = 4"
    by (simp add: extendedPathsLength_def extendedPaths_of_def)
  from version_cap [OF t, of example_settings False Extended] l t show ?thesis by simp
qed

subsection \<open>A submit while a generation is in flight\<close>

lemma generation_in_flight_track:
  "\<exists>track. map_of (tracks (store generation_in_flight)) 1 = Some track \<and>
     track ''status'' = Some (JStr ''processing'')"
  by (simp add: generation_in_flight_def coordinator_init_def MemStorage_constructor_def
      upload_def submit_def createAudioTrack_def getAudioTrack_def updateAudioTrack_def Let_def
      extendedPathsLength_def extendedPaths_of_def MAX_VERSIONS_def)

lemma generation_in_flight_calls:
  "engine_calls generation_in_flight = [(1, example_settings)]"
  by (simp add: generation_in_flight_def coordinator_init_def MemStorage_constructor_def
      upload_def submit_def createAudioTrack_def getAudioTrack_def updateAudioTrack_def Let_def
      extendedPathsLength_def extendedPaths_of_def MAX_VERSIONS_def)

text \<open>
  C3. On a track whose status is \<open>Processing\<close>, in any state, \<open>Submit\<close> returns
  \<open>AlreadyProcessing\<close> to the caller and leaves the state as it was: the status is still
  \<open>Processing\<close> and the engine's invocations are the same, so no second generation is
  launched. The client's regenerate button, in both versions of \<^verbatim>\<open>TrackView\<close>, is
  disabled on such a track and sends no request.
\<close>

theorem submit_while_processing:
  assumes "map_of (tracks (store c)) tid = Some track"
    and "track ''status'' = Some (JStr ''processing'')"
  shows "submit tid settings c = (Inl AlreadyProcessing, c) \<and>
         regenerate_disabled_single track isProcessing \<and>
         regenerate_disabled track isProcessing \<and>
         regenerate_click type track isProcessing = None"
  using assms
  by (simp add: submit_def getAudioTrack_def regenerate_disabled_single_def
      regenerate_disabled_def regenerate_click_def)

theorem submit_while_processing_witness:
  "submit 1 (JObj [(''introLength'', JNum 8)]) generation_in_flight =
     (Inl AlreadyProcessing, generation_in_flight) \<and>
   engine_calls (snd (submit 1 (JObj [(''introLength'', JNum 8)]) generation_in_flight)) =
     [(1, example_settings)]"
proof -
  from generation_in_flight_track obtain track where
    t: "map_of (tracks (store generation_in_flight)) 1 = Some track" and
    p: "track ''status'' = Some (JStr ''processing'')"
    by blast
  from submit_while_processing [OF t p, of "JObj [(''introLength'', JNum 8)]" False Extended]
  show ?thesis by (simp add: generation_in_flight_calls)
qed

end
